theory Spec2Isabelle
  imports Complex_Main
begin

section \<open>Polar spectrogram pipeline (archive/audio_to_image.py)\<close>

text \<open>
  The numeric pipeline of \<^verbatim>\<open>archive/audio_to_image.py\<close>: framing and transform
  (\<^verbatim>\<open>apply_mdct\<close>), the band tables (\<^verbatim>\<open>get_frequency_band\<close>, \<^verbatim>\<open>band_to_hue\<close>,
  \<^verbatim>\<open>band_to_numbins\<close>), the colour encoder (\<^verbatim>\<open>mdct_to_hsv\<close>) and the radius layout of
  \<^verbatim>\<open>plot_polar_spectrogram\<close>.

  Conventions of the embedding.
  \<^item> Python integers that count things (indices, lengths, frame and hop size, band ids)
    are \<open>nat\<close>; the sample rate is an \<open>int\<close>; where the source subtracts two lengths
    the subtraction is done in \<open>int\<close>.
  \<^item> A finite floating-point value is a \<open>real\<close>, and arithmetic on finite values is exact
    except where rounding changes what the encoder returns in kind: a quotient, product
    or sum beyond the double-precision range is \<^verbatim>\<open>inf\<close>, and \<^verbatim>\<open>x + 1\<close> is \<open>1\<close> for an \<open>x\<close>
    too small to change it. The special values \<^verbatim>\<open>nan\<close> and \<^verbatim>\<open>inf\<close> are values of the type
    \<open>npfloat\<close>. All other rounding is left out, and so is the \<^verbatim>\<open>float32\<close> storage of the
    transform matrix, whose range and precision are smaller than those of a double.
  \<^item> A two-dimensional array is a list of rows. An exception is a value \<open>Inl e\<close>.
\<close>

subsection \<open>Errors\<close>

datatype error = ZeroDivisionError | ValueError | IndexError

subsection \<open>Band mapper\<close>

text \<open>
  \<^verbatim>\<open>freq = index * sample_rate / frame_size\<close> is Python's true division: it raises
  \<^verbatim>\<open>ZeroDivisionError\<close> for \<^verbatim>\<open>frame_size == 0\<close>. The chain of \<^verbatim>\<open>elif\<close> is kept in
  the source's order; the last branch is the sentinel 7 (what it prints is left out).
\<close>

definition get_frequency_band :: "nat \<Rightarrow> int \<Rightarrow> nat \<Rightarrow> error + nat" where
  "get_frequency_band index sample_rate frame_size =
     (if frame_size = 0 then Inl ZeroDivisionError
      else
        let freq = (real index * real_of_int sample_rate) / real frame_size in
        if 0 \<le> freq \<and> freq < 60 then Inr 0
        else if 60 \<le> freq \<and> freq < 250 then Inr 1
        else if 250 \<le> freq \<and> freq < 500 then Inr 2
        else if 500 \<le> freq \<and> freq < 2000 then Inr 3
        else if 2000 \<le> freq \<and> freq < 4000 then Inr 4
        else if 4000 \<le> freq \<and> freq < 6000 then Inr 5
        else if 6000 \<le> freq then Inr 6
        else Inr 7)"

definition hue_values :: "real list" where
  "hue_values = [0, 0.1, 0.2, 0.4, 0.6, 0.8, 0.9]"

text \<open>\<^verbatim>\<open>hue_values[band]\<close> raises \<^verbatim>\<open>IndexError\<close> for a band beyond the table.\<close>

definition band_to_hue :: "nat \<Rightarrow> error + real" where
  "band_to_hue band =
     (if band < length hue_values then Inr (hue_values ! band) else Inl IndexError)"

definition band_to_numbins :: "nat \<Rightarrow> nat" where
  "band_to_numbins band =
     (if band = 0 then 2
      else if band = 1 then 4
      else if band = 2 then 5
      else if band = 3 then 32
      else if band = 4 then 43
      else if band = 5 then 42
      else if band = 6 then 384
      else 0)"

subsection \<open>numpy values and reductions\<close>

text \<open>
  A float is a finite value or one of the special values. A result of double-precision
  arithmetic whose magnitude reaches \<open>2^1024 - 2^970\<close>, half a unit in the last place
  above the largest finite double, is rounded to \<^verbatim>\<open>inf\<close>.
\<close>

datatype npfloat = Finite real | PosInf | NegInf | NaN

definition float_overflow :: real where
  "float_overflow = 2 ^ 1024 - 2 ^ 970"

definition np_float :: "real \<Rightarrow> npfloat" where
  "np_float r =
     (if float_overflow \<le> r then PosInf
      else if r \<le> - float_overflow then NegInf
      else Finite r)"

text \<open>
  Dividing by zero is not an exception in numpy: it gives \<^verbatim>\<open>nan\<close> for \<^verbatim>\<open>0/0\<close> and a signed
  \<^verbatim>\<open>inf\<close> otherwise (with a warning). The divisors of this program are a maximum of
  absolute values and a difference \<^verbatim>\<open>max - min\<close>, so a zero divisor is \<^verbatim>\<open>+0.0\<close>.
\<close>

definition np_true_divide :: "real \<Rightarrow> real \<Rightarrow> npfloat" where
  "np_true_divide a b =
     (if b \<noteq> 0 then np_float (a / b)
      else if a = 0 then NaN
      else if 0 < a then PosInf
      else NegInf)"

fun np_multiply :: "npfloat \<Rightarrow> real \<Rightarrow> npfloat" where
  "np_multiply (Finite a) x = np_float (a * x)"
| "np_multiply PosInf x = (if x = 0 then NaN else if 0 < x then PosInf else NegInf)"
| "np_multiply NegInf x = (if x = 0 then NaN else if 0 < x then NegInf else PosInf)"
| "np_multiply NaN x = NaN"

fun np_add :: "real \<Rightarrow> npfloat \<Rightarrow> npfloat" where
  "np_add c (Finite a) = np_float (c + a)"
| "np_add c PosInf = PosInf"
| "np_add c NegInf = NegInf"
| "np_add c NaN = NaN"

text \<open>
  \<^verbatim>\<open>abs_mdct + 1\<close> for a magnitude \<open>a \<ge> 0\<close>: in double precision the sum is \<open>1\<close> as long as
  \<open>a\<close> is at most \<open>2^-53\<close>, half the distance from 1 to the next double. Above that the sum
  is taken as exact.
\<close>

definition np_add_one :: "real \<Rightarrow> real" where
  "np_add_one a = (if a \<le> 1 / 2 ^ 53 then 1 else a + 1)"

text \<open>
  \<^verbatim>\<open>np.min\<close> and \<^verbatim>\<open>np.max\<close> reduce over the whole array and raise \<^verbatim>\<open>ValueError\<close> on an
  array without elements.
\<close>

definition np_min :: "real list list \<Rightarrow> error + real" where
  "np_min a = (case concat a of [] \<Rightarrow> Inl ValueError | x # xs \<Rightarrow> Inr (fold min xs x))"

definition np_max :: "real list list \<Rightarrow> error + real" where
  "np_max a = (case concat a of [] \<Rightarrow> Inl ValueError | x # xs \<Rightarrow> Inr (fold max xs x))"

text \<open>
  \<^verbatim>\<open>np.fft.fftfreq(n, d=1/sample_rate)\<close>: \<^verbatim>\<open>1/sample_rate\<close> raises for a zero sample
  rate, and \<^verbatim>\<open>1.0 / (n * d)\<close> inside \<^verbatim>\<open>fftfreq\<close> raises for \<^verbatim>\<open>n == 0\<close>. The result is
  \<^verbatim>\<open>[0, 1, ..., (n-1)//2, -(n//2), ..., -1] / (d * n)\<close>.
\<close>

definition fftfreq :: "nat \<Rightarrow> int \<Rightarrow> error + real list" where
  "fftfreq n sample_rate =
     (if sample_rate = 0 then Inl ZeroDivisionError
      else if n = 0 then Inl ZeroDivisionError
      else Inr (map (\<lambda>i. real_of_int i * real_of_int sample_rate / real n)
                  (map int [0 ..< (n - 1) div 2 + 1] @
                   map (\<lambda>j. int j - int (n div 2)) [0 ..< n div 2])))"

text \<open>
  Elementwise product of two one-dimensional arrays, with numpy's broadcasting: the
  lengths agree, or one of them is 1; otherwise \<^verbatim>\<open>ValueError\<close>.
\<close>

definition np_multiply_1d :: "real list \<Rightarrow> real list \<Rightarrow> error + real list" where
  "np_multiply_1d a b =
     (if length a = length b then Inr (map2 (*) a b)
      else if length a = 1 then Inr (map (\<lambda>y. hd a * y) b)
      else if length b = 1 then Inr (map (\<lambda>x. x * hd b) a)
      else Inl ValueError)"

text \<open>Storing a one-dimensional array into a row of \<open>frame_size\<close> cells.\<close>

definition assign_row :: "nat \<Rightarrow> real list \<Rightarrow> error + real list" where
  "assign_row frame_size v =
     (if length v = frame_size then Inr v
      else if length v = 1 then Inr (replicate frame_size (hd v))
      else Inl ValueError)"

subsection \<open>Framer and transformer\<close>

text \<open>\<^verbatim>\<open>np.sin(np.pi * (np.arange(frame_size) + 0.5) / frame_size)\<close>\<close>

definition sine_window :: "nat \<Rightarrow> real list" where
  "sine_window frame_size =
     map (\<lambda>i. sin (pi * (real i + 0.5) / real frame_size)) [0 ..< frame_size]"

text \<open>
  \<^verbatim>\<open>fftpack.dct(x, type=2, norm='ortho')\<close> of scipy, by its documentation:
  \<^verbatim>\<open>y[k] = 2 * sum(x[n] * cos(pi*k*(2n+1)/(2*N)), n = 0..N-1)\<close>, scaled by
  \<^verbatim>\<open>sqrt(1/(4*N))\<close> for \<^verbatim>\<open>k = 0\<close> and by \<^verbatim>\<open>sqrt(1/(2*N))\<close> otherwise.
\<close>

definition dct :: "real list \<Rightarrow> real list" where
  "dct x =
     (let N = length x in
      map (\<lambda>k. (if k = 0 then sqrt (1 / (4 * real N)) else sqrt (1 / (2 * real N))) *
                (2 * sum_list (map (\<lambda>n. x ! n * cos (pi * real k * (2 * real n + 1) / (2 * real N)))
                                 [0 ..< N])))
          [0 ..< N])"

text \<open>
  The body of \<^verbatim>\<open>for n in range(num_frames)\<close>, over the list of frame indices; the result
  is the list of the rows stored into \<^verbatim>\<open>mdct_frames\<close>. \<^verbatim>\<open>audio[start:end]\<close> is a slice, cut
  short at the end of the waveform.
\<close>

fun mdct_loop :: "real list \<Rightarrow> nat \<Rightarrow> nat \<Rightarrow> nat list \<Rightarrow> error + real list list" where
  "mdct_loop audio frame_size hop_size [] = Inr []"
| "mdct_loop audio frame_size hop_size (n # ns) =
     (let start = n * hop_size;
          end' = start + frame_size
      in case np_multiply_1d (drop start (take end' audio)) (sine_window frame_size) of
           Inl e \<Rightarrow> Inl e
         | Inr windowed_frame \<Rightarrow>
             (case assign_row frame_size (dct windowed_frame) of
                Inl e \<Rightarrow> Inl e
              | Inr row \<Rightarrow>
                  (case mdct_loop audio frame_size hop_size ns of
                     Inl e \<Rightarrow> Inl e
                   | Inr rows \<Rightarrow> Inr (row # rows))))"

text \<open>
  \<^verbatim>\<open>freqs.min()\<close> raises \<^verbatim>\<open>ValueError\<close> on an empty array; \<^verbatim>\<open>//\<close> raises for a zero hop
  size and is floor division, as \<open>div\<close> on \<open>int\<close>; \<^verbatim>\<open>np.empty\<close> raises \<^verbatim>\<open>ValueError\<close> for a
  negative number of frames. The result is \<^verbatim>\<open>mdct_frames[:, :frame_size//2]\<close>.
\<close>

definition apply_mdct :: "real list \<Rightarrow> nat \<Rightarrow> nat \<Rightarrow> int \<Rightarrow> error + real list list" where
  "apply_mdct audio frame_size hop_size sample_rate =
     (case fftfreq frame_size sample_rate of
        Inl e \<Rightarrow> Inl e
      | Inr all_freqs \<Rightarrow>
          let freqs = take (frame_size div 2) all_freqs in
          if freqs = [] then Inl ValueError
          else if hop_size = 0 then Inl ZeroDivisionError
          else
            let num_frames = 1 + (int (length audio) - int frame_size) div int hop_size in
            if num_frames < 0 then Inl ValueError
            else
              (case mdct_loop audio frame_size hop_size [0 ..< nat num_frames] of
                 Inl e \<Rightarrow> Inl e
               | Inr mdct_frames \<Rightarrow> Inr (map (take (frame_size div 2)) mdct_frames)))"

subsection \<open>Colour encoder\<close>

text \<open>A cell of the HSV array: hue, saturation, brightness along the last axis.\<close>

type_synonym hsv = "npfloat \<times> npfloat \<times> npfloat"

definition hue_of :: "hsv \<Rightarrow> npfloat" where
  "hue_of p = fst p"

definition saturation_of :: "hsv \<Rightarrow> npfloat" where
  "saturation_of p = fst (snd p)"

definition brightness_of :: "hsv \<Rightarrow> npfloat" where
  "brightness_of p = snd (snd p)"

text \<open>The loop \<^verbatim>\<open>for col in range(hue.shape[0])\<close> that fills the hue vector.\<close>

fun hue_loop :: "nat list \<Rightarrow> int \<Rightarrow> nat \<Rightarrow> error + real list" where
  "hue_loop [] sample_rate frame_size = Inr []"
| "hue_loop (col # cols) sample_rate frame_size =
     (case get_frequency_band col sample_rate frame_size of
        Inl e \<Rightarrow> Inl e
      | Inr band \<Rightarrow>
          (case band_to_hue band of
             Inl e \<Rightarrow> Inl e
           | Inr h \<Rightarrow>
               (case hue_loop cols sample_rate frame_size of
                  Inl e \<Rightarrow> Inl e
                | Inr hs \<Rightarrow> Inr (h # hs))))"

text \<open>
  \<^verbatim>\<open>np.stack((hue, saturation, brightness), axis=-1)\<close> raises \<^verbatim>\<open>ValueError\<close> unless the
  three arrays have the same shape.
\<close>

definition np_stack ::
  "real list list \<Rightarrow> npfloat list list \<Rightarrow> npfloat list list \<Rightarrow> error + hsv list list" where
  "np_stack hue saturation brightness =
     (if map length hue = map length saturation \<and>
         map length saturation = map length brightness
      then Inr (map (\<lambda>(h, s, v). map (\<lambda>(h', s', v'). (Finite h', s', v')) (zip h (zip s v)))
                  (zip hue (zip saturation brightness)))
      else Inl ValueError)"

text \<open>
  The parameter \<open>saturation\<close> is bound again by the assignment
  \<^verbatim>\<open>saturation = 0.8 + scaling_factor * mdct_array\<close> before anything reads it.
  \<^verbatim>\<open>np.log10\<close> is the real logarithm here: two logarithms that differ by less than the
  precision of a float are different in this model and equal in the code.
\<close>

definition mdct_to_hsv ::
  "real list list \<Rightarrow> nat \<Rightarrow> int \<Rightarrow> real \<Rightarrow> error + hsv list list" where
  "mdct_to_hsv mdct_array frame_size sample_rate saturation =
     (let abs_mdct = map (map abs) mdct_array;
          log_mdct = map (map (\<lambda>a. log 10 (np_add_one a))) abs_mdct
      in case np_min log_mdct of
           Inl e \<Rightarrow> Inl e
         | Inr min_log_value \<Rightarrow>
       (case np_max log_mdct of
           Inl e \<Rightarrow> Inl e
         | Inr max_log_value \<Rightarrow>
       (let brightness =
              map (map (\<lambda>l. np_true_divide (l - min_log_value)
                                            (max_log_value - min_log_value))) log_mdct
        in case fftfreq frame_size sample_rate of
             Inl e \<Rightarrow> Inl e
           | Inr freqs \<Rightarrow>
       (case hue_loop [0 ..< frame_size div 2] sample_rate frame_size of
             Inl e \<Rightarrow> Inl e
           | Inr hue_row \<Rightarrow>
       (let hue = replicate (length mdct_array) hue_row
        in case np_max (map (map abs) mdct_array) of
             Inl e \<Rightarrow> Inl e
           | Inr max_abs_value \<Rightarrow>
       (let scaling_factor = np_true_divide 0.2 max_abs_value;
            saturation =
              map (map (\<lambda>x. np_add 0.8 (np_multiply scaling_factor x))) mdct_array
        in np_stack hue saturation brightness))))))"

subsection \<open>Polar renderer\<close>

text \<open>\<^verbatim>\<open>np.linspace(start, stop, num)\<close>: \<open>num\<close> equally spaced values, both ends included.\<close>

definition linspace :: "real \<Rightarrow> real \<Rightarrow> nat \<Rightarrow> real list" where
  "linspace start stop num =
     map (\<lambda>i. start + real i * ((stop - start) / real (num - 1))) [0 ..< num]"

definition max_radius :: real where
  "max_radius = 10"

definition min_radius :: real where
  "min_radius = max_radius / 8"

definition annulus_thickness :: real where
  "annulus_thickness = (max_radius - min_radius) / 7"

definition band_radii :: "real list" where
  "band_radii = rev (linspace min_radius max_radius 8)"

text \<open>
  \<^verbatim>\<open>rgb_array[:, band_columns, :]\<close> selects the listed columns of every row and raises
  \<^verbatim>\<open>IndexError\<close> for a column beyond the array. (A list without rows keeps no column
  count; the encoder never returns one, since \<^verbatim>\<open>np.min\<close> raises on it first.)
\<close>

definition take_columns :: "'a list list \<Rightarrow> nat list \<Rightarrow> error + 'a list list" where
  "take_columns a cols =
     (if list_all (\<lambda>row. list_all (\<lambda>c. c < length row) cols) a
      then Inr (map (\<lambda>row. map (\<lambda>c. row ! c) cols) a)
      else Inl IndexError)"

text \<open>
  What the renderer draws for one band: the two radii of its annulus, the columns of
  the array it takes, and the cells. The conversion to RGB, the mesh and the raster
  file are matplotlib's and are not part of the model.
\<close>

record annulus =
  outer_radius :: real
  inner_radius :: real
  band_columns :: "nat list"
  band_cells :: "hsv list list"

text \<open>The loop \<^verbatim>\<open>for band in range(7)\<close>, with \<^verbatim>\<open>current_col\<close> passed along.\<close>

fun plot_loop :: "hsv list list \<Rightarrow> nat list \<Rightarrow> nat \<Rightarrow> error + annulus list" where
  "plot_loop hsv_array [] current_col = Inr []"
| "plot_loop hsv_array (band # bands) current_col =
     (if length band_radii \<le> band + 1 then Inl IndexError
      else
        let outer_radius = band_radii ! band;
            inner_radius = band_radii ! (band + 1);
            num_band_columns = band_to_numbins band;
            band_columns = [current_col ..< current_col + num_band_columns]
        in case take_columns hsv_array band_columns of
             Inl e \<Rightarrow> Inl e
           | Inr band_array \<Rightarrow>
               (case plot_loop hsv_array bands (current_col + num_band_columns) of
                  Inl e \<Rightarrow> Inl e
                | Inr rest \<Rightarrow>
                    Inr (\<lparr>outer_radius = outer_radius, inner_radius = inner_radius,
                          band_columns = band_columns, band_cells = band_array\<rparr> # rest)))"

definition plot_polar_spectrogram :: "hsv list list \<Rightarrow> nat \<Rightarrow> int \<Rightarrow> error + annulus list" where
  "plot_polar_spectrogram hsv_array frame_size sample_rate = plot_loop hsv_array [0 ..< 7] 0"

subsection \<open>The pipeline\<close>

text \<open>
  \<^verbatim>\<open>main\<close> from the point where the waveform is loaded and trimmed: the frame size is
  1024, the hop size half of it, and \<^verbatim>\<open>mdct_to_hsv\<close> is called with the default
  \<^verbatim>\<open>saturation=1\<close>. \<^verbatim>\<open>np.min(mdct_array)\<close> and \<^verbatim>\<open>np.max(mdct_array)\<close> are evaluated
  between the transform and the encoder, and raise on an array without elements.
\<close>

definition main :: "real list \<Rightarrow> int \<Rightarrow> error + annulus list" where
  "main audio sample_rate =
     (let frame_size = 1024;
          hop_size = frame_size div 2
      in case apply_mdct audio frame_size hop_size sample_rate of
           Inl e \<Rightarrow> Inl e
         | Inr mdct_array \<Rightarrow>
             (case np_min mdct_array of
                Inl e \<Rightarrow> Inl e
              | Inr min_value \<Rightarrow>
                  (case np_max mdct_array of
                     Inl e \<Rightarrow> Inl e
                   | Inr max_value \<Rightarrow>
                       (case mdct_to_hsv mdct_array frame_size sample_rate 1 of
                          Inl e \<Rightarrow> Inl e
                        | Inr hsv_array \<Rightarrow>
                            plot_polar_spectrogram hsv_array frame_size sample_rate))))"

subsection \<open>Shapes\<close>

text \<open>
  A list of rows is an array of shape \<open>(rows, cols)\<close> when it has \<open>rows\<close> rows, each of
  \<open>cols\<close> cells. The theorems about arrays are stated for lists of this form.
\<close>

definition has_shape :: "'a list list \<Rightarrow> nat \<Rightarrow> nat \<Rightarrow> bool" where
  "has_shape a rows cols = (length a = rows \<and> list_all (\<lambda>row. length row = cols) a)"

section \<open>Properties\<close>

subsection \<open>Band mapper\<close>

lemma gfb_cases:
  fixes freq :: real
  assumes "0 \<le> freq"
  obtains "freq < 60" | "60 \<le> freq" "freq < 250" | "250 \<le> freq" "freq < 500"
    | "500 \<le> freq" "freq < 2000" | "2000 \<le> freq" "freq < 4000"
    | "4000 \<le> freq" "freq < 6000" | "6000 \<le> freq"
  using assms by linarith

lemma get_frequency_band_nonneg:
  assumes "0 < frame_size" and "0 \<le> sample_rate"
  shows "\<exists>b. get_frequency_band index sample_rate frame_size = Inr b \<and> b \<le> 6"
proof -
  have "0 \<le> (real index * real_of_int sample_rate) / real frame_size"
    using assms by simp
  then show ?thesis
    using assms(1) by (auto simp: get_frequency_band_def Let_def)
qed

text \<open>
  Claim C6. For a frame size that is a power of two, a positive sample rate and a bin
  index below half the frame size, \<open>get_frequency_band\<close> returns a band between 0 and 6,
  and that band is the one whose half-open range holds \<open>index * sample_rate / frame_size\<close>;
  the sentinel 7 is not returned.
\<close>

theorem get_frequency_band_valid:
  assumes "frame_size = 2 ^ m" and "0 < sample_rate" and "index < frame_size div 2"
  shows "\<exists>b. get_frequency_band index sample_rate frame_size = Inr b \<and> b \<le> 6 \<and> b \<noteq> 7 \<and>
           (let freq = (real index * real_of_int sample_rate) / real frame_size in
              (b = 0 \<longleftrightarrow> 0 \<le> freq \<and> freq < 60) \<and>
              (b = 1 \<longleftrightarrow> 60 \<le> freq \<and> freq < 250) \<and>
              (b = 2 \<longleftrightarrow> 250 \<le> freq \<and> freq < 500) \<and>
              (b = 3 \<longleftrightarrow> 500 \<le> freq \<and> freq < 2000) \<and>
              (b = 4 \<longleftrightarrow> 2000 \<le> freq \<and> freq < 4000) \<and>
              (b = 5 \<longleftrightarrow> 4000 \<le> freq \<and> freq < 6000) \<and>
              (b = 6 \<longleftrightarrow> 6000 \<le> freq))"
proof -
  define freq where "freq = (real index * real_of_int sample_rate) / real frame_size"
  have pos: "frame_size \<noteq> 0" using assms(1) by simp
  have nonneg: "0 \<le> freq"
    using assms(2) by (simp add: freq_def)
  have unf: "get_frequency_band index sample_rate frame_size =
        (if 0 \<le> freq \<and> freq < 60 then Inr 0
        else if 60 \<le> freq \<and> freq < 250 then Inr 1
        else if 250 \<le> freq \<and> freq < 500 then Inr 2
        else if 500 \<le> freq \<and> freq < 2000 then Inr 3
        else if 2000 \<le> freq \<and> freq < 4000 then Inr 4
        else if 4000 \<le> freq \<and> freq < 6000 then Inr 5
        else if 6000 \<le> freq then Inr 6
        else Inr 7)"
    using pos by (simp add: get_frequency_band_def freq_def Let_def)
  from nonneg show ?thesis
    unfolding unf Let_def freq_def [symmetric]
    by (cases freq rule: gfb_cases) (simp_all add: nonneg)
qed

theorem get_frequency_band_valid_witness:
  "(1024::nat) = 2 ^ 10 \<and> (0::int) < 48000 \<and> (11::nat) < 1024 div 2 \<and>
   get_frequency_band 11 48000 1024 = Inr 3"
proof -
  have a: "(1024::nat) = 2 ^ 10" by simp
  have b: "(0::int) < 48000" by simp
  have c: "(11::nat) < 1024 div 2" by simp
  note t = get_frequency_band_valid [OF a b c, unfolded Let_def]
  from t obtain k where k: "get_frequency_band 11 48000 1024 = Inr k"
    and r: "(k = 3) = (500 \<le> (real 11 * real_of_int 48000) / real 1024 \<and>
                      (real 11 * real_of_int 48000) / real 1024 < 2000)"
    by (elim exE conjE)
  from r have "k = 3" by simp
  with k have "get_frequency_band 11 48000 1024 = Inr 3" by simp
  with a b c show ?thesis by (intro conjI)
qed

text \<open>
  Claim C8. The bin counts of the seven bands are 2, 4, 5, 32, 43, 42 and 384; they add
  up to 512, half of the configured frame size 1024.
\<close>

theorem band_to_numbins_sum:
  "map band_to_numbins [0, 1, 2, 3, 4, 5, 6] = [2, 4, 5, 32, 43, 42, 384] \<and>
   sum_list (map band_to_numbins [0 ..< 7]) = 512 \<and>
   sum_list (map band_to_numbins [0 ..< 7]) = 1024 div 2"
proof -
  have u: "[0 ..< 7] = [0, 1, 2, 3, 4, 5, 6::nat]"
    by code_simp
  show ?thesis
    unfolding u by (simp add: band_to_numbins_def)
qed

subsection \<open>Hue loop\<close>

lemma hue_loop_Inr:
  "hue_loop cols sample_rate frame_size = Inr hs \<Longrightarrow>
   length hs = length cols \<and>
   (\<forall>i<length cols. \<exists>b. get_frequency_band (cols ! i) sample_rate frame_size = Inr b \<and>
                          band_to_hue b = Inr (hs ! i))"
proof (induction cols arbitrary: hs)
  case Nil
  then show ?case by simp
next
  case (Cons col cols)
  from Cons.prems obtain band h hs' where
    b: "get_frequency_band col sample_rate frame_size = Inr band"
    and h: "band_to_hue band = Inr h"
    and r: "hue_loop cols sample_rate frame_size = Inr hs'"
    and e: "hs = h # hs'"
    by (auto split: sum.splits)
  from Cons.IH [OF r] b h e show ?case
    by (auto simp: nth_Cons split: nat.splits)
qed

lemma band_to_hue_le6: "b \<le> 6 \<Longrightarrow> band_to_hue b = Inr (hue_values ! b)"
  by (simp add: band_to_hue_def hue_values_def)

lemma hue_loop_total:
  assumes "0 < frame_size" and "0 \<le> sample_rate"
  shows "\<exists>hs. hue_loop cols sample_rate frame_size = Inr hs"
proof (induction cols)
  case Nil
  show ?case by simp
next
  case (Cons col cols)
  from get_frequency_band_nonneg [OF assms, of col]
  obtain b where b: "get_frequency_band col sample_rate frame_size = Inr b" "b \<le> 6"
    by blast
  with Cons band_to_hue_le6 [OF b(2)] show ?case by auto
qed

subsection \<open>Shapes and reductions\<close>

lemma np_min_Min: "concat a \<noteq> [] \<Longrightarrow> np_min a = Inr (Min (set (concat a)))"
  by (cases "concat a") (simp_all add: np_min_def Min.set_eq_fold [symmetric] del: set_simps)

lemma np_max_Max: "concat a \<noteq> [] \<Longrightarrow> np_max a = Inr (Max (set (concat a)))"
  by (cases "concat a") (simp_all add: np_max_def Max.set_eq_fold [symmetric] del: set_simps)

lemma has_shape_nth: "has_shape a rows cols \<Longrightarrow> r < rows \<Longrightarrow> length (a ! r) = cols"
  by (simp add: has_shape_def list_all_length)

lemma has_shape_map_length: "has_shape a rows cols \<Longrightarrow> map length a = replicate rows cols"
  by (auto simp: has_shape_def list_all_length intro: nth_equalityI)

lemma has_shape_concat:
  assumes "has_shape a rows cols" and "0 < rows" and "0 < cols"
  shows "concat a \<noteq> []"
proof -
  from assms have "a ! 0 \<in> set a" and "a ! 0 \<noteq> []"
    by (auto simp: has_shape_def list_all_length)
  then show ?thesis by auto
qed

lemma has_shape_cell_in_concat:
  assumes "has_shape a rows cols" and "r < rows" and "c < cols"
  shows "a ! r ! c \<in> set (concat a)"
proof -
  from assms have "a ! r \<in> set a" and "c < length (a ! r)"
    by (auto simp: has_shape_def list_all_length)
  then have "a ! r ! c \<in> set (a ! r)" and "a ! r \<in> set a"
    by simp_all
  then show ?thesis
    unfolding set_concat by blast
qed

lemma np_stack_cells:
  assumes "np_stack hue sat bri = Inr hsv"
  shows "length hsv = length hue \<and>
         (\<forall>r<length hue. length (hsv ! r) = length (hue ! r) \<and>
            (\<forall>c<length (hue ! r). hsv ! r ! c = (Finite (hue ! r ! c), sat ! r ! c, bri ! r ! c)))"
proof -
  from assms have e1: "map length hue = map length sat"
    and e2: "map length sat = map length bri"
    and h: "hsv = map (\<lambda>(h, s, v). map (\<lambda>(h', s', v'). (Finite h', s', v')) (zip h (zip s v)))
                  (zip hue (zip sat bri))"
    by (auto simp: np_stack_def split: if_splits)
  from e1 have l1: "length hue = length sat" by (rule map_eq_imp_length_eq)
  from e2 have l2: "length sat = length bri" by (rule map_eq_imp_length_eq)
  have r1: "length (hue ! r) = length (sat ! r)" if "r < length hue" for r
    using arg_cong [OF e1, of "\<lambda>xs. xs ! r"] that l1 by simp
  have r2: "length (sat ! r) = length (bri ! r)" if "r < length hue" for r
    using arg_cong [OF e2, of "\<lambda>xs. xs ! r"] that l1 l2 by simp
  show ?thesis
    using l1 l2 r1 r2 by (simp add: h)
qed

subsection \<open>Colour encoder\<close>

text \<open>
  For an array with at least one cell, of \<open>frame_size div 2\<close> columns, and a positive
  sample rate, the encoder returns, and every cell of its result is given by the three
  channel formulas.
\<close>

lemma mdct_to_hsv_cells:
  assumes sh: "has_shape M rows (frame_size div 2)"
    and rows: "0 < rows" and cols: "0 < frame_size div 2" and sr: "0 < sample_rate"
  defines "L \<equiv> map (\<lambda>x. log 10 (np_add_one \<bar>x\<bar>)) (concat M)"
  shows "\<exists>hsv hue_row.
           mdct_to_hsv M frame_size sample_rate s = Inr hsv \<and>
           hue_loop [0 ..< frame_size div 2] sample_rate frame_size = Inr hue_row \<and>
           has_shape hsv rows (frame_size div 2) \<and>
           (\<forall>r<rows. \<forall>c<frame_size div 2.
              hsv ! r ! c =
                (Finite (hue_row ! c),
                 np_add 0.8 (np_multiply (np_true_divide 0.2 (Max (set (map abs (concat M)))))
                                          (M ! r ! c)),
                 np_true_divide (log 10 (np_add_one \<bar>M ! r ! c\<bar>) - Min (set L))
                                (Max (set L) - Min (set L))))"
proof -
  have F: "0 < frame_size" using cols by auto
  have len: "length M = rows" using sh by (simp add: has_shape_def)
  have ne: "concat M \<noteq> []" by (rule has_shape_concat [OF sh rows cols])
  let ?logm = "map (map (\<lambda>a. log 10 (np_add_one a))) (map (map abs) M)"
  have cl: "concat ?logm = L"
    by (simp add: L_def map_concat [symmetric] comp_def)
  have ca: "concat (map (map abs) M) = map abs (concat M)"
    by (simp add: map_concat)
  have nl: "L \<noteq> []" using ne by (simp add: L_def)
  have na: "map abs (concat M) \<noteq> []" using ne by simp
  have mn: "np_min ?logm = Inr (Min (set L))"
    using np_min_Min [of ?logm] nl unfolding cl by blast
  have mx: "np_max ?logm = Inr (Max (set L))"
    using np_max_Max [of ?logm] nl unfolding cl by blast
  have ma: "np_max (map (map abs) M) = Inr (Max (set (map abs (concat M))))"
    using np_max_Max [of "map (map abs) M"] na unfolding ca by blast
  have ff: "\<exists>fs. fftfreq frame_size sample_rate = Inr fs"
    using F sr by (simp add: fftfreq_def)
  then obtain fs where fs: "fftfreq frame_size sample_rate = Inr fs" ..
  from hue_loop_total [of frame_size sample_rate] F sr
  obtain hue_row where hr: "hue_loop [0 ..< frame_size div 2] sample_rate frame_size = Inr hue_row"
    by force
  from hue_loop_Inr [OF hr] have hl: "length hue_row = frame_size div 2" by simp
  let ?hue = "replicate (length M) hue_row"
  let ?sat = "map (map (\<lambda>x. np_add 0.8 (np_multiply
                 (np_true_divide 0.2 (Max (set (map abs (concat M))))) x))) M"
  let ?bri = "map (map (\<lambda>l. np_true_divide (l - Min (set L)) (Max (set L) - Min (set L)))) ?logm"
  have unf: "mdct_to_hsv M frame_size sample_rate s = np_stack ?hue ?sat ?bri"
    unfolding mdct_to_hsv_def Let_def mn mx ma fs hr sum.case ..
  have ml: "map length M = replicate rows (frame_size div 2)"
    by (rule has_shape_map_length [OF sh])
  have shapes: "map length ?hue = map length ?sat \<and> map length ?sat = map length ?bri"
    by (simp add: ml len hl comp_def)
  then obtain hsv where st: "np_stack ?hue ?sat ?bri = Inr hsv"
    by (simp add: np_stack_def)
  note cells = np_stack_cells [OF st]
  have l: "length hsv = rows" using cells len by simp
  have rowlen: "length (hsv ! r) = frame_size div 2" if "r < rows" for r
    using cells that len hl by simp
  have cell: "hsv ! r ! c =
                (Finite (hue_row ! c),
                 np_add 0.8 (np_multiply (np_true_divide 0.2 (Max (set (map abs (concat M)))))
                                          (M ! r ! c)),
                 np_true_divide (log 10 (np_add_one \<bar>M ! r ! c\<bar>) - Min (set L))
                                (Max (set L) - Min (set L)))"
    if "r < rows" "c < frame_size div 2" for r c
  proof -
    have "length (M ! r) = frame_size div 2"
      by (rule has_shape_nth [OF sh that(1)])
    with cells that len hl show ?thesis by simp
  qed
  have "has_shape hsv rows (frame_size div 2)"
    using l rowlen by (simp add: has_shape_def list_all_length)
  with unf st hr cell show ?thesis by auto
qed

text \<open>
  Claim C10. The value passed for the parameter \<open>saturation\<close> has no influence on the
  result of \<open>mdct_to_hsv\<close>: two calls that differ only in it return the same.
\<close>

theorem mdct_to_hsv_saturation_unused:
  "mdct_to_hsv mdct_array frame_size sample_rate saturation =
   mdct_to_hsv mdct_array frame_size sample_rate saturation'"
  by (simp add: mdct_to_hsv_def)







subsection \<open>Degenerate divisions\<close>

lemma upt_2: "[0 ..< 2] = [0, Suc 0]"
  by (simp add: upt_conv_Cons)

text \<open>
  Claim C4, which the code does not meet. The claim gives every cell of a matrix that is
  not all zero a brightness between 0 and 1, as does the comment
  \<^verbatim>\<open>brightness will be between 0 and 1\<close> in the source. The matrix \<open>[[1, -1]]\<close> is not all
  zero, but its two magnitudes are equal: \<open>max(L) - min(L)\<close> is zero, nothing guards the
  division, and the brightness of both cells is \<^verbatim>\<open>nan\<close>.
\<close>

theorem mdct_to_hsv_brightness_equal_magnitudes:
  "map_sum id (map (map brightness_of)) (mdct_to_hsv [[1, - 1]] 4 48000 1) =
     Inr [[NaN, NaN]]"
  by (simp add: mdct_to_hsv_def np_min_def np_max_def fftfreq_def upt_2
      get_frequency_band_def band_to_hue_def hue_values_def np_stack_def np_true_divide_def
      np_add_one_def np_float_def float_overflow_def brightness_of_def)

text \<open>
  On an all-zero matrix the encoder raises nothing: both divisions are made with a zero
  divisor and the saturation and brightness of every cell are \<^verbatim>\<open>nan\<close>.
\<close>

lemma mdct_to_hsv_silence_cells:
  "mdct_to_hsv [[0, 0]] 4 48000 1 =
     Inr [[(Finite 0, NaN, NaN), (Finite 0.9, NaN, NaN)]]"
  by (simp add: mdct_to_hsv_def np_min_def np_max_def fftfreq_def upt_2
      get_frequency_band_def band_to_hue_def hue_values_def np_stack_def np_true_divide_def
      np_add_one_def)

subsection \<open>Hue\<close>

lemma band_to_hue_Inr:
  "band_to_hue b = Inr h \<Longrightarrow> b \<le> 6 \<and> h = [0, 0.1, 0.2, 0.4, 0.6, 0.8, 0.9] ! b"
  by (auto simp: band_to_hue_def hue_values_def split: if_splits)

lemma mdct_to_hsv_stack:
  assumes "mdct_to_hsv mdct_array frame_size sample_rate saturation = Inr hsv"
  shows "\<exists>hue_row sat bri.
           hue_loop [0 ..< frame_size div 2] sample_rate frame_size = Inr hue_row \<and>
           np_stack (replicate (length mdct_array) hue_row) sat bri = Inr hsv"
  using assms by (auto simp: mdct_to_hsv_def Let_def split: sum.splits)

text \<open>
  Claim C7. In the array returned by \<open>mdct_to_hsv\<close>, the hue of the cell in row \<open>r\<close> and
  column \<open>c\<close> is the entry of the table 0, 0.1, 0.2, 0.4, 0.6, 0.8, 0.9 for the band of bin
  \<open>c\<close>; it is the same in every row of that column, and the same for every column of
  the same band.
\<close>

theorem mdct_to_hsv_hue:
  assumes "mdct_to_hsv mdct_array frame_size sample_rate saturation = Inr hsv"
    and "r < length hsv" and "c < length (hsv ! r)"
  shows "\<exists>b. get_frequency_band c sample_rate frame_size = Inr b \<and> b \<le> 6 \<and>
           hue_of (hsv ! r ! c) = Finite ([0, 0.1, 0.2, 0.4, 0.6, 0.8, 0.9] ! b) \<and>
           (\<forall>r'<length hsv. c < length (hsv ! r') \<and> hue_of (hsv ! r' ! c) = hue_of (hsv ! r ! c)) \<and>
           (\<forall>c'<length (hsv ! r).
              get_frequency_band c' sample_rate frame_size = Inr b \<longrightarrow>
              hue_of (hsv ! r ! c') = hue_of (hsv ! r ! c))"
proof -
  from mdct_to_hsv_stack [OF assms(1)] obtain hue_row sat bri where
    hl: "hue_loop [0 ..< frame_size div 2] sample_rate frame_size = Inr hue_row"
    and st: "np_stack (replicate (length mdct_array) hue_row) sat bri = Inr hsv"
    by blast
  from hue_loop_Inr [OF hl] have len: "length hue_row = frame_size div 2"
    and bands: "\<And>i. i < frame_size div 2 \<Longrightarrow>
           \<exists>b. get_frequency_band i sample_rate frame_size = Inr b \<and>
               band_to_hue b = Inr (hue_row ! i)"
    by auto
  from np_stack_cells [OF st] have rows: "length hsv = length mdct_array"
    and rowlen: "\<And>r. r < length hsv \<Longrightarrow> length (hsv ! r) = frame_size div 2"
    and cell: "\<And>r c. r < length hsv \<Longrightarrow> c < frame_size div 2 \<Longrightarrow>
                 hue_of (hsv ! r ! c) = Finite (hue_row ! c)"
    by (simp_all add: len hue_of_def)
  have c: "c < frame_size div 2" using assms(2,3) rowlen by simp
  from bands [OF c] obtain b where b: "get_frequency_band c sample_rate frame_size = Inr b"
    and h: "band_to_hue b = Inr (hue_row ! c)" by blast
  note bh = band_to_hue_Inr [OF h]
  have same: "hue_of (hsv ! r ! c') = hue_of (hsv ! r ! c)"
    if "c' < length (hsv ! r)" "get_frequency_band c' sample_rate frame_size = Inr b" for c'
  proof -
    have c': "c' < frame_size div 2" using that(1) assms(2) rowlen by simp
    from bands [OF c'] that(2) have "band_to_hue b = Inr (hue_row ! c')" by auto
    with h have "hue_row ! c' = hue_row ! c" by simp
    with cell [OF assms(2) c'] cell [OF assms(2) c] show ?thesis by simp
  qed
  have col: "c < length (hsv ! r') \<and> hue_of (hsv ! r' ! c) = hue_of (hsv ! r ! c)"
    if "r' < length hsv" for r'
    using cell [OF that c] cell [OF assms(2) c] rowlen [OF that] c by simp
  from b bh cell [OF assms(2) c] same col show ?thesis by auto
qed

theorem mdct_to_hsv_hue_witness:
  "\<exists>hsv. mdct_to_hsv [[1, 2], [3, 4]] 4 48000 1 = Inr hsv \<and>
         1 < length hsv \<and> 1 < length (hsv ! 1) \<and>
         hue_of (hsv ! 1 ! 1) = Finite 0.9 \<and>
         hue_of (hsv ! 0 ! 1) = hue_of (hsv ! 1 ! 1)"
proof -
  have sh: "has_shape [[1, 2], [3, 4::real]] 2 (4 div 2)"
    by (simp add: has_shape_def)
  have rows: "(0::nat) < 2" and cols: "(0::nat) < 4 div 2" and sr: "(0::int) < 48000"
    by simp_all
  from mdct_to_hsv_cells [OF sh rows cols sr, of 1]
  obtain hsv where ret: "mdct_to_hsv [[1, 2], [3, 4]] 4 48000 1 = Inr hsv"
    and shp: "has_shape hsv 2 (4 div 2)"
    by blast
  from shp have r: "1 < length hsv"
    by (simp add: has_shape_def)
  from has_shape_nth [OF shp, of 1] have c: "1 < length (hsv ! 1)"
    by simp
  have band: "get_frequency_band 1 48000 4 = Inr 6"
    by (simp add: get_frequency_band_def)
  from mdct_to_hsv_hue [OF ret r c] obtain b where
    b: "get_frequency_band 1 48000 4 = Inr b"
    and hb: "hue_of (hsv ! 1 ! 1) = Finite ([0, 0.1, 0.2, 0.4, 0.6, 0.8, 0.9] ! b)"
    and col: "\<forall>r'<length hsv. 1 < length (hsv ! r') \<and> hue_of (hsv ! r' ! 1) = hue_of (hsv ! 1 ! 1)"
    by blast
  from b band have "b = 6" by simp
  with hb have h: "hue_of (hsv ! 1 ! 1) = Finite ([0, 0.1, 0.2, 0.4, 0.6, 0.8, 0.9] ! 6)"
    by simp
  from h have "hue_of (hsv ! 1 ! 1) = Finite 0.9" by simp
  moreover from col r have "hue_of (hsv ! 0 ! 1) = hue_of (hsv ! 1 ! 1)"
    by (metis less_trans zero_less_one)
  ultimately show ?thesis using ret r c by blast
qed

subsection \<open>Framer and transformer\<close>

lemma length_sine_window: "length (sine_window frame_size) = frame_size"
  by (simp add: sine_window_def)

lemma length_dct: "length (dct x) = length x"
  by (simp add: dct_def Let_def)

lemma slice_full:
  assumes "start + frame_size \<le> length audio"
  shows "drop start (take (start + frame_size) audio) = take frame_size (drop start audio)"
    and "length (take frame_size (drop start audio)) = frame_size"
  using assms by (simp_all add: drop_take)

lemma np_multiply_1d_same:
  "length a = length b \<Longrightarrow> np_multiply_1d a b = Inr (map2 (*) a b)"
  by (simp add: np_multiply_1d_def)

lemma assign_row_same: "length v = frame_size \<Longrightarrow> assign_row frame_size v = Inr v"
  by (simp add: assign_row_def)

text \<open>Every frame that ends inside the waveform gives one row, the transform of its window.\<close>

lemma mdct_loop_rows:
  assumes "\<forall>n\<in>set ns. n * hop_size + frame_size \<le> length audio"
  shows "mdct_loop audio frame_size hop_size ns =
           Inr (map (\<lambda>n. dct (map2 (*) (take frame_size (drop (n * hop_size) audio))
                                        (sine_window frame_size))) ns)"
  using assms
proof (induction ns)
  case Nil
  show ?case by simp
next
  case (Cons n ns)
  from Cons.prems have fit: "n * hop_size + frame_size \<le> length audio" by simp
  note sl = slice_full [OF fit]
  have w: "np_multiply_1d (drop (n * hop_size) (take (n * hop_size + frame_size) audio))
             (sine_window frame_size) =
           Inr (map2 (*) (take frame_size (drop (n * hop_size) audio)) (sine_window frame_size))"
    unfolding sl(1) by (rule np_multiply_1d_same) (simp only: sl(2) length_sine_window)
  have a: "assign_row frame_size
             (dct (map2 (*) (take frame_size (drop (n * hop_size) audio)) (sine_window frame_size))) =
           Inr (dct (map2 (*) (take frame_size (drop (n * hop_size) audio)) (sine_window frame_size)))"
    by (rule assign_row_same) (simp only: length_dct length_map length_zip sl(2) length_sine_window min.idem)
  from Cons.prems have "\<forall>n\<in>set ns. n * hop_size + frame_size \<le> length audio" by simp
  then have r: "mdct_loop audio frame_size hop_size ns =
           Inr (map (\<lambda>n. dct (map2 (*) (take frame_size (drop (n * hop_size) audio))
                                        (sine_window frame_size))) ns)"
    by (rule Cons.IH)
  show ?case
    by (simp add: Let_def w a r)
qed

lemma fftfreq_half:
  assumes "sample_rate \<noteq> 0" and "0 < frame_size div 2"
  shows "\<exists>fs. fftfreq frame_size sample_rate = Inr fs \<and> take (frame_size div 2) fs \<noteq> []"
  using assms by (auto simp: fftfreq_def)

lemma num_frames_nat:
  assumes "frame_size \<le> n"
  shows "1 + (int n - int frame_size) div int hop_size = int (1 + (n - frame_size) div hop_size)"
  using assms by (simp add: zdiv_int of_nat_diff)

lemma frame_fits:
  assumes "0 < hop_size" and "frame_size \<le> n" and "k < 1 + (n - frame_size) div hop_size"
  shows "k * hop_size + frame_size \<le> (n::nat)"
proof -
  from assms(3) have "k \<le> (n - frame_size) div hop_size" by simp
  then have "k * hop_size \<le> (n - frame_size) div hop_size * hop_size"
    by (rule mult_le_mono1)
  also have "\<dots> \<le> n - frame_size" by simp
  finally show ?thesis using assms(2) by simp
qed

lemma apply_mdct_frames:
  assumes "0 < hop_size" and "0 < frame_size div 2" and "sample_rate \<noteq> 0"
    and "frame_size \<le> length audio"
  shows "apply_mdct audio frame_size hop_size sample_rate =
           Inr (map (\<lambda>n. take (frame_size div 2)
                            (dct (map2 (*) (take frame_size (drop (n * hop_size) audio))
                                           (sine_window frame_size))))
                    [0 ..< 1 + (length audio - frame_size) div hop_size])"
proof -
  from fftfreq_half [OF assms(3,2)] obtain fs where
    fs: "fftfreq frame_size sample_rate = Inr fs" "take (frame_size div 2) fs \<noteq> []"
    by blast
  let ?k = "1 + (length audio - frame_size) div hop_size"
  have nf: "1 + (int (length audio) - int frame_size) div int hop_size = int ?k"
    by (rule num_frames_nat [OF assms(4)])
  have "\<forall>n\<in>set [0 ..< ?k]. n * hop_size + frame_size \<le> length audio"
    using frame_fits [OF assms(1,4)] by simp
  then have loop: "mdct_loop audio frame_size hop_size [0 ..< ?k] =
           Inr (map (\<lambda>n. dct (map2 (*) (take frame_size (drop (n * hop_size) audio))
                                        (sine_window frame_size))) [0 ..< ?k])"
    by (rule mdct_loop_rows)
  show ?thesis
    unfolding apply_mdct_def fs sum.case Let_def nf nat_int loop
    using fs(2) assms(1) by (simp add: comp_def del: upt_Suc)
qed

lemma dct_scale:
  assumes "0 < N"
  shows "sqrt (1 / (4 * real N)) * 2 = sqrt (1 / real N)"
    and "sqrt (1 / (2 * real N)) * 2 = sqrt (2 / real N)"
proof -
  have four: "(2::real) = sqrt 4" by simp
  have "sqrt (1 / (4 * real N)) * sqrt 4 = sqrt (1 / (4 * real N) * 4)"
    by (rule real_sqrt_mult [symmetric])
  then show "sqrt (1 / (4 * real N)) * 2 = sqrt (1 / real N)"
    using assms by simp
  have "sqrt (1 / (2 * real N)) * sqrt 4 = sqrt (1 / (2 * real N) * 4)"
    by (rule real_sqrt_mult [symmetric])
  then show "sqrt (1 / (2 * real N)) * 2 = sqrt (2 / real N)"
    using assms by simp
qed

text \<open>The coefficient \<open>k\<close> of the transform, in the usual form of the orthonormal DCT-II.\<close>

lemma dct_nth:
  assumes "k < length x"
  shows "dct x ! k =
           (if k = 0 then sqrt (1 / real (length x)) else sqrt (2 / real (length x))) *
           (\<Sum>i<length x. x ! i * cos (pi * real k * (2 * real i + 1) / (2 * real (length x))))"
proof -
  let ?N = "length x"
  let ?f = "\<lambda>i. x ! i * cos (pi * real k * (2 * real i + 1) / (2 * real ?N))"
  have pos: "0 < ?N" using assms by (cases x) simp_all
  have s: "sum_list (map ?f [0 ..< ?N]) = sum ?f {..<?N}"
    by (simp add: interv_sum_list_conv_sum_set_nat atLeast0LessThan)
  have "dct x ! k =
          (if k = 0 then sqrt (1 / (4 * real ?N)) else sqrt (1 / (2 * real ?N))) *
          (2 * sum_list (map ?f [0 ..< ?N]))"
    using assms by (simp add: dct_def Let_def)
  also have "\<dots> = (if k = 0 then sqrt (1 / (4 * real ?N)) * 2 else sqrt (1 / (2 * real ?N)) * 2) *
          sum ?f {..<?N}"
    unfolding s by simp
  also have "\<dots> = (if k = 0 then sqrt (1 / real ?N) else sqrt (2 / real ?N)) * sum ?f {..<?N}"
    unfolding dct_scale [OF pos] ..
  finally show ?thesis .
qed

lemma windowed_nth:
  assumes "start + frame_size \<le> length audio" and "i < frame_size"
  shows "map2 (*) (take frame_size (drop start audio)) (sine_window frame_size) ! i =
           audio ! (start + i) * sin (pi * (real i + 0.5) / real frame_size)"
  using assms by (simp add: sine_window_def)

lemma length_windowed:
  assumes "start + frame_size \<le> length audio"
  shows "length (map2 (*) (take frame_size (drop start audio)) (sine_window frame_size)) = frame_size"
  using assms by (simp add: sine_window_def)

text \<open>
  Claim C1. For a waveform of \<open>N\<close> samples, at least \<open>frame_size\<close> of them, and a hop size
  of half the frame size, \<open>apply_mdct\<close> returns a matrix of
  \<open>1 + (N - frame_size) div hop_size\<close> rows and \<open>frame_size div 2\<close> columns. The entry in row
  \<open>n\<close> and column \<open>k\<close> is coefficient \<open>k\<close> of the orthonormal DCT-II of the frame that
  starts at sample \<open>n * hop_size\<close>, each sample \<open>i\<close> of the frame multiplied by the window
  \<open>sin(pi * (i + 0.5) / frame_size)\<close>: the sum of the windowed samples times
  \<open>cos(pi * k * (2 * i + 1) / (2 * frame_size))\<close>, scaled by \<open>sqrt(1 / frame_size)\<close> for
  \<open>k = 0\<close> and by \<open>sqrt(2 / frame_size)\<close> otherwise.
\<close>

theorem apply_mdct_shape_rows:
  assumes "hop_size = frame_size div 2" and "0 < hop_size" and "sample_rate \<noteq> 0"
    and "frame_size \<le> length audio"
  shows "\<exists>M. apply_mdct audio frame_size hop_size sample_rate = Inr M \<and>
           has_shape M (1 + (length audio - frame_size) div hop_size) (frame_size div 2) \<and>
           (\<forall>n < 1 + (length audio - frame_size) div hop_size. \<forall>k < frame_size div 2.
              M ! n ! k =
                (if k = 0 then sqrt (1 / real frame_size) else sqrt (2 / real frame_size)) *
                (\<Sum>i<frame_size.
                   audio ! (n * hop_size + i) * sin (pi * (real i + 0.5) / real frame_size) *
                   cos (pi * real k * (2 * real i + 1) / (2 * real frame_size))))"
proof -
  let ?k = "1 + (length audio - frame_size) div hop_size"
  let ?v = "\<lambda>n. map2 (*) (take frame_size (drop (n * hop_size) audio)) (sine_window frame_size)"
  let ?row = "\<lambda>n. take (frame_size div 2) (dct (?v n))"
  have half: "0 < frame_size div 2" using assms(1,2) by simp
  have ret: "apply_mdct audio frame_size hop_size sample_rate = Inr (map ?row [0 ..< ?k])"
    by (rule apply_mdct_frames [OF assms(2) half assms(3,4)])
  have fit: "n * hop_size + frame_size \<le> length audio" if "n < ?k" for n
    by (rule frame_fits [OF assms(2,4) that])
  have len: "length (?row n) = frame_size div 2" if "n < ?k" for n
    using length_windowed [OF fit [OF that]] by (simp add: length_dct)
  have shape: "has_shape (map ?row [0 ..< ?k]) ?k (frame_size div 2)"
    unfolding has_shape_def list_all_length using len by (simp del: upt_Suc)
  have coeff: "map ?row [0 ..< ?k] ! n ! k =
                (if k = 0 then sqrt (1 / real frame_size) else sqrt (2 / real frame_size)) *
                (\<Sum>i<frame_size.
                   audio ! (n * hop_size + i) * sin (pi * (real i + 0.5) / real frame_size) *
                   cos (pi * real k * (2 * real i + 1) / (2 * real frame_size)))"
    if n: "n < ?k" and k: "k < frame_size div 2" for n k
  proof -
    note lv = length_windowed [OF fit [OF n]]
    have kF: "k < frame_size" using k by simp
    have "map ?row [0 ..< ?k] ! n ! k = dct (?v n) ! k"
      using n k by (simp del: upt_Suc)
    also have "\<dots> = (if k = 0 then sqrt (1 / real frame_size) else sqrt (2 / real frame_size)) *
          (\<Sum>i<frame_size. ?v n ! i * cos (pi * real k * (2 * real i + 1) / (2 * real frame_size)))"
      using dct_nth [of k "?v n"] kF unfolding lv by simp
    also have "(\<Sum>i<frame_size. ?v n ! i * cos (pi * real k * (2 * real i + 1) / (2 * real frame_size))) =
          (\<Sum>i<frame_size.
             audio ! (n * hop_size + i) * sin (pi * (real i + 0.5) / real frame_size) *
             cos (pi * real k * (2 * real i + 1) / (2 * real frame_size)))"
      by (rule sum.cong) (simp_all only: windowed_nth [OF fit [OF n]] lessThan_iff)
    finally show ?thesis .
  qed
  from ret shape coeff show ?thesis by blast
qed

text \<open>
  With a frame of two samples the window is \<open>sqrt 2 / 2\<close> twice and the one coefficient
  kept is the mean of the two samples: the frames of \<open>[1, 3, 5]\<close> give 2 and 4.
\<close>

lemma list_length_1: "length xs = 1 \<Longrightarrow> xs = [xs ! 0]"
  by (cases xs) simp_all

lemma list_length_2: "length xs = 2 \<Longrightarrow> xs = [xs ! 0, xs ! 1]"
  by (cases xs; cases "tl xs") simp_all

lemma sine_window_2:
  "sin (pi * (real 0 + 0.5) / real 2) = sqrt 2 / 2"
  "sin (pi * (real 1 + 0.5) / real 2) = sqrt 2 / 2"
proof -
  have a: "pi * (real 0 + 0.5) / real 2 = pi / 4" by simp
  show "sin (pi * (real 0 + 0.5) / real 2) = sqrt 2 / 2"
    unfolding a by (rule sin_45)
  have b: "pi * (real 1 + 0.5) / real 2 = pi - pi / 4" by simp
  show "sin (pi * (real 1 + 0.5) / real 2) = sqrt 2 / 2"
    unfolding b sin_pi_minus by (rule sin_45)
qed

lemma dct_2_first:
  "sqrt (1 / real 2) * (\<Sum>i<2. xs ! (n + i) * sin (pi * (real i + 0.5) / real 2) *
                              cos (pi * real 0 * (2 * real i + 1) / (2 * real 2))) =
   (xs ! n + xs ! (n + 1)) / 2"
proof -
  have two: "(\<Sum>i<2. g i) = g 0 + g 1" for g :: "nat \<Rightarrow> real"
    by (simp add: numeral_2_eq_2)
  have "sqrt (1 / 2) * sqrt 2 = sqrt (1 / 2 * 2)"
    by (rule real_sqrt_mult [symmetric])
  then have u: "sqrt (1 / 2) * sqrt 2 = 1" by simp
  have "sqrt (1 / real 2) * (\<Sum>i<2. xs ! (n + i) * sin (pi * (real i + 0.5) / real 2) *
                              cos (pi * real 0 * (2 * real i + 1) / (2 * real 2))) =
        sqrt (1 / 2) * (xs ! n * (sqrt 2 / 2) + xs ! (n + 1) * (sqrt 2 / 2))"
    unfolding two sine_window_2 by simp
  also have "\<dots> = (sqrt (1 / 2) * sqrt 2) * ((xs ! n + xs ! (n + 1)) / 2)"
    by (simp add: algebra_simps)
  finally show ?thesis unfolding u by simp
qed

theorem apply_mdct_shape_rows_witness:
  "(1::nat) = 2 div 2 \<and> (0::nat) < 1 \<and> (48000::int) \<noteq> 0 \<and> 2 \<le> length [1, 3, 5::real] \<and>
   apply_mdct [1, 3, 5] 2 1 48000 = Inr [[2], [4]]"
proof -
  have h: "(1::nat) = 2 div 2" and p: "(0::nat) < 1" and sr: "(48000::int) \<noteq> 0"
    and n: "2 \<le> length [1, 3, 5::real]"
    by simp_all
  have k: "1 + (length [1, 3, 5::real] - 2) div 1 = 2" and d: "(2::nat) div 2 = 1"
    by simp_all
  note t = apply_mdct_shape_rows [OF h p sr n, unfolded k d]
  from t obtain M where ret: "apply_mdct [1, 3, 5] 2 1 48000 = Inr M"
    and shp: "has_shape M 2 1"
    and coeff: "\<And>n k. n < 2 \<Longrightarrow> k < 1 \<Longrightarrow>
        M ! n ! k = (if k = 0 then sqrt (1 / real 2) else sqrt (2 / real 2)) *
                (\<Sum>i<2. [1, 3, 5] ! (n * 1 + i) * sin (pi * (real i + 0.5) / real 2) *
                   cos (pi * real k * (2 * real i + 1) / (2 * real 2)))"
    by (elim exE conjE) blast
  have c0: "M ! 0 ! 0 = 2"
    using coeff [of 0 0] dct_2_first [of "[1, 3, 5]" 0] by simp
  have c1: "M ! 1 ! 0 = 4"
    using coeff [of 1 0] dct_2_first [of "[1, 3, 5]" 1] by simp
  from shp have l: "length M = 2" and l0: "length (M ! 0) = 1" and l1: "length (M ! 1) = 1"
    by (simp_all add: has_shape_def list_all_length)
  have "M = [M ! 0, M ! 1]" by (rule list_length_2 [OF l])
  also have "M ! 0 = [M ! 0 ! 0]" by (rule list_length_1 [OF l0])
  also have "M ! 1 = [M ! 1 ! 0]" by (rule list_length_1 [OF l1])
  finally have "M = [[2], [4]]" unfolding c0 c1 .
  with ret have e: "apply_mdct [1, 3, 5] 2 1 48000 = Inr [[2], [4]]" by simp
  show ?thesis
    by (intro conjI h p sr n e)
qed

subsection \<open>Waveforms shorter than a frame\<close>

lemma num_frames_short:
  assumes "0 < hop_size" and "n < frame_size"
  shows "1 + (int n - int frame_size) div int hop_size < 0 \<longleftrightarrow> n + hop_size < frame_size"
    and "\<not> n + hop_size < frame_size \<Longrightarrow> 1 + (int n - int frame_size) div int hop_size = 0"
proof -
  have e: "1 + (int n - int frame_size) div int hop_size =
           (int n - int frame_size + int hop_size) div int hop_size"
    using assms(1) by simp
  have p: "0 < int hop_size" using assms(1) by simp
  have "(int n - int frame_size + int hop_size) div int hop_size < 0 \<longleftrightarrow>
        int n - int frame_size + int hop_size < 0"
    by (rule pos_imp_zdiv_neg_iff [OF p])
  also have "\<dots> \<longleftrightarrow> n + hop_size < frame_size" by linarith
  finally show "1 + (int n - int frame_size) div int hop_size < 0 \<longleftrightarrow> n + hop_size < frame_size"
    unfolding e .
  show "1 + (int n - int frame_size) div int hop_size = 0" if "\<not> n + hop_size < frame_size"
    unfolding e using assms that by (intro div_pos_pos_trivial) linarith+
qed

lemma apply_mdct_short:
  assumes "0 < hop_size" and "0 < frame_size div 2" and "sample_rate \<noteq> 0"
    and "length audio < frame_size"
  shows "apply_mdct audio frame_size hop_size sample_rate =
           (if length audio + hop_size < frame_size then Inl ValueError else Inr [])"
proof -
  from fftfreq_half [OF assms(3,2)] obtain fs where
    fs: "fftfreq frame_size sample_rate = Inr fs" "take (frame_size div 2) fs \<noteq> []"
    by blast
  note nf = num_frames_short [OF assms(1,4)]
  show ?thesis
  proof (cases "length audio + hop_size < frame_size")
    case True
    with nf(1) have "1 + (int (length audio) - int frame_size) div int hop_size < 0" by blast
    with True fs(2) assms(1) show ?thesis
      unfolding apply_mdct_def fs sum.case Let_def by simp
  next
    case False
    with nf(2) have z: "1 + (int (length audio) - int frame_size) div int hop_size = 0" by blast
    from False fs(2) assms(1) show ?thesis
      unfolding apply_mdct_def fs sum.case Let_def z by simp
  qed
qed

lemma main_short:
  assumes "sample_rate \<noteq> 0" and "length audio < 1024"
  shows "main audio sample_rate = Inl ValueError"
proof -
  have "apply_mdct audio 1024 512 sample_rate =
          (if length audio + 512 < 1024 then Inl ValueError else Inr [])"
    using apply_mdct_short [of 512 1024 sample_rate audio] assms by simp
  then show ?thesis
    by (simp add: main_def np_min_def)
qed

text \<open>
  Three samples are fewer than a frame of four: the framer raises nothing and returns a
  matrix without rows.
\<close>

theorem apply_mdct_short_counterexample:
  "apply_mdct [1, 2, 3] 4 2 48000 = Inr []"
  by (simp add: apply_mdct_def fftfreq_def)

text \<open>
  Claim C3, amended. For a waveform shorter than a frame, with a hop size of half the
  frame size: if fewer than \<open>frame_size - hop_size\<close> samples are given, \<open>apply_mdct\<close> raises
  \<open>ValueError\<close> (a negative number of frames); otherwise it raises nothing and returns a
  matrix without rows. In the pipeline, with its frame size of 1024, both cases end in
  \<open>ValueError\<close>: the second one at \<open>np.min\<close> of the empty matrix.
\<close>

theorem apply_mdct_short_input:
  assumes "hop_size = frame_size div 2" and "0 < hop_size" and "sample_rate \<noteq> 0"
    and "length audio < frame_size"
  shows "apply_mdct audio frame_size hop_size sample_rate =
           (if length audio + hop_size < frame_size then Inl ValueError else Inr []) \<and>
         (frame_size = 1024 \<longrightarrow> main audio sample_rate = Inl ValueError)"
proof -
  have half: "0 < frame_size div 2" using assms(1,2) by simp
  have a: "apply_mdct audio frame_size hop_size sample_rate =
           (if length audio + hop_size < frame_size then Inl ValueError else Inr [])"
    by (rule apply_mdct_short [OF assms(2) half assms(3,4)])
  have "main audio sample_rate = Inl ValueError" if "frame_size = 1024"
    using assms(3,4) that by (intro main_short) simp_all
  with a show ?thesis by blast
qed

theorem apply_mdct_short_input_witness:
  "(512::nat) = 1024 div 2 \<and> (0::nat) < 512 \<and> (48000::int) \<noteq> 0 \<and>
   length (replicate 600 (1::real)) < 1024 \<and>
   apply_mdct (replicate 600 1) 1024 512 48000 = Inr [] \<and>
   main (replicate 600 1) 48000 = Inl ValueError"
proof -
  have h: "(512::nat) = 1024 div 2" and p: "(0::nat) < 512" and sr: "(48000::int) \<noteq> 0"
    and n: "length (replicate 600 (1::real)) < 1024"
    by simp_all
  from apply_mdct_short_input [OF h p sr n]
  have "apply_mdct (replicate 600 1) 1024 512 48000 =
          (if length (replicate 600 (1::real)) + 512 < 1024 then Inl ValueError else Inr [])"
    and "main (replicate 600 1) 48000 = Inl ValueError"
    by blast+
  then have "apply_mdct (replicate 600 1) 1024 512 48000 = Inr []"
    and "main (replicate 600 1) 48000 = Inl ValueError"
    by simp_all
  with h p sr n show ?thesis by blast
qed

subsection \<open>Polar renderer\<close>

lemma upt_8: "[0 ..< 8] = [0, 1, 2, 3, 4, 5, 6, 7::nat]"
  by code_simp

lemma upt_7: "[0 ..< 7] = [0, 1, 2, 3, 4, 5, 6::nat]"
  by code_simp

lemma band_radii_values: "band_radii = [10, 8.75, 7.5, 6.25, 5, 3.75, 2.5, 1.25]"
  unfolding band_radii_def linspace_def upt_8
  by (simp add: min_radius_def max_radius_def)

lemma annulus_thickness_value: "annulus_thickness = 1.25"
  by (simp add: annulus_thickness_def min_radius_def max_radius_def)

lemma band_radii_nth:
  assumes "i < 8"
  shows "band_radii ! i = max_radius - real i * annulus_thickness"
proof -
  from assms have "i \<in> {0, 1, 2, 3, 4, 5, 6, 7}" by auto
  then show ?thesis
    unfolding band_radii_values annulus_thickness_value max_radius_def
    by (elim insertE emptyE) simp_all
qed

lemma plot_loop_radii:
  "plot_loop hsv_array bands current_col = Inr annuli \<Longrightarrow>
   length annuli = length bands \<and>
   (\<forall>i<length bands.
      bands ! i + 1 < length band_radii \<and>
      outer_radius (annuli ! i) = band_radii ! (bands ! i) \<and>
      inner_radius (annuli ! i) = band_radii ! (bands ! i + 1))"
proof (induction bands arbitrary: current_col annuli)
  case Nil
  then show ?case by simp
next
  case (Cons band bands)
  let ?next = "current_col + band_to_numbins band"
  from Cons.prems obtain band_array rest where
    ok: "band + 1 < length band_radii"
    and r: "plot_loop hsv_array bands ?next = Inr rest"
    and a: "annuli = \<lparr>outer_radius = band_radii ! band, inner_radius = band_radii ! (band + 1),
                       band_columns = [current_col ..< ?next], band_cells = band_array\<rparr> # rest"
    by (auto simp: Let_def split: if_splits sum.splits)
  from Cons.IH [OF r] ok show ?case
    unfolding a by (auto simp: nth_Cons split: nat.splits)
qed

text \<open>
  Claim C9. The eight boundary radii are equally spaced between \<open>min_radius\<close> and
  \<open>max_radius\<close> and taken from the largest down: the annulus of band \<open>b\<close> lies between
  \<open>max_radius - b * annulus_thickness\<close> and \<open>max_radius - (b + 1) * annulus_thickness\<close>.
  Band 0 is the outermost annulus, band 6 the innermost, and the annulus of band
  \<open>b + 1\<close> ends where that of band \<open>b\<close> begins, closer to the centre.
\<close>

theorem plot_polar_spectrogram_radii:
  assumes "plot_polar_spectrogram hsv_array frame_size sample_rate = Inr annuli"
  shows "length annuli = 7 \<and>
         band_radii = rev (map (\<lambda>i. min_radius + real i * ((max_radius - min_radius) / 7)) [0 ..< 8]) \<and>
         0 < annulus_thickness \<and>
         outer_radius (annuli ! 0) = max_radius \<and>
         inner_radius (annuli ! 6) = min_radius \<and>
         (\<forall>b<7. outer_radius (annuli ! b) = max_radius - real b * annulus_thickness \<and>
                inner_radius (annuli ! b) = max_radius - real (b + 1) * annulus_thickness \<and>
                inner_radius (annuli ! b) < outer_radius (annuli ! b)) \<and>
         (\<forall>b<6. outer_radius (annuli ! (b + 1)) = inner_radius (annuli ! b) \<and>
                outer_radius (annuli ! (b + 1)) < outer_radius (annuli ! b) \<and>
                inner_radius (annuli ! (b + 1)) < inner_radius (annuli ! b))"
proof -
  from assms have "plot_loop hsv_array [0 ..< 7] 0 = Inr annuli"
    by (simp add: plot_polar_spectrogram_def)
  from plot_loop_radii [OF this] have len: "length annuli = 7"
    and rad: "\<And>b. b < 7 \<Longrightarrow> outer_radius (annuli ! b) = band_radii ! b \<and>
                              inner_radius (annuli ! b) = band_radii ! (b + 1)"
    by (simp_all del: upt_Suc)
  have pos: "0 < annulus_thickness" by (simp add: annulus_thickness_value)
  have band: "outer_radius (annuli ! b) = max_radius - real b * annulus_thickness \<and>
              inner_radius (annuli ! b) = max_radius - real (b + 1) * annulus_thickness \<and>
              inner_radius (annuli ! b) < outer_radius (annuli ! b)" if "b < 7" for b
  proof -
    from that have "b < 8" "b + 1 < 8" by simp_all
    with rad [OF that] have o: "outer_radius (annuli ! b) = max_radius - real b * annulus_thickness"
      and i: "inner_radius (annuli ! b) = max_radius - real (b + 1) * annulus_thickness"
      by (simp_all only: band_radii_nth)
    have "max_radius - real (b + 1) * annulus_thickness < max_radius - real b * annulus_thickness"
      using pos by (simp add: algebra_simps)
    with o i show ?thesis by simp
  qed
  have nxt: "outer_radius (annuli ! (b + 1)) = inner_radius (annuli ! b) \<and>
             outer_radius (annuli ! (b + 1)) < outer_radius (annuli ! b) \<and>
             inner_radius (annuli ! (b + 1)) < inner_radius (annuli ! b)" if "b < 6" for b
  proof -
    from that have "b < 7" "b + 1 < 7" by simp_all
    from band [OF this(1)] band [OF this(2)] show ?thesis by simp
  qed
  have first: "outer_radius (annuli ! 0) = max_radius"
    using band [of 0] by simp
  have last: "inner_radius (annuli ! 6) = min_radius"
    using band [of 6] by (simp add: annulus_thickness_value min_radius_def max_radius_def)
  have lin: "band_radii = rev (map (\<lambda>i. min_radius + real i * ((max_radius - min_radius) / 7)) [0 ..< 8])"
    by (simp add: band_radii_def linspace_def del: upt_Suc)
  from len lin pos first last band nxt show ?thesis by blast
qed

lemma take_columns_range:
  assumes "list_all (\<lambda>row. hi \<le> length row) a"
  shows "take_columns a [lo ..< hi] = Inr (map (\<lambda>row. map (\<lambda>c. row ! c) [lo ..< hi]) a)"
proof -
  have "list_all (\<lambda>row. list_all (\<lambda>c. c < length row) [lo ..< hi]) a"
    using assms by (auto simp: list_all_iff)
  then show ?thesis by (simp add: take_columns_def)
qed

text \<open>
  When every row has a cell for each column the bands take, the loop draws every band,
  and every cell it draws is a cell of the array.
\<close>

lemma plot_loop_total:
  assumes "list_all (\<lambda>b. b + 1 < length band_radii) bands"
    and "list_all (\<lambda>row. current_col + sum_list (map band_to_numbins bands) \<le> length row) hsv_array"
  shows "\<exists>annuli. plot_loop hsv_array bands current_col = Inr annuli \<and>
           (\<forall>a\<in>set annuli. \<forall>row\<in>set (band_cells a). \<exists>src\<in>set hsv_array. set row \<subseteq> set src)"
  using assms
proof (induction bands arbitrary: current_col)
  case Nil
  show ?case by simp
next
  case (Cons band bands)
  let ?next = "current_col + band_to_numbins band"
  from Cons.prems(1) have ok: "\<not> length band_radii \<le> band + 1"
    and oks: "list_all (\<lambda>b. b + 1 < length band_radii) bands"
    by simp_all
  from Cons.prems(2) have fit: "list_all (\<lambda>row. ?next \<le> length row) hsv_array"
    and fits: "list_all (\<lambda>row. ?next + sum_list (map band_to_numbins bands) \<le> length row) hsv_array"
    by (auto simp: list_all_iff add.assoc)
  from Cons.IH [OF oks fits] obtain rest where
    r: "plot_loop hsv_array bands ?next = Inr rest"
    and rc: "\<forall>a\<in>set rest. \<forall>row\<in>set (band_cells a). \<exists>src\<in>set hsv_array. set row \<subseteq> set src"
    by blast
  note tc = take_columns_range [OF fit, of current_col]
  have cells: "\<forall>row\<in>set (map (\<lambda>row. map (\<lambda>c. row ! c) [current_col ..< ?next]) hsv_array).
                 \<exists>src\<in>set hsv_array. set row \<subseteq> set src"
  proof
    fix row assume "row \<in> set (map (\<lambda>row. map (\<lambda>c. row ! c) [current_col ..< ?next]) hsv_array)"
    then obtain src where src: "src \<in> set hsv_array"
      and row: "row = map (\<lambda>c. src ! c) [current_col ..< ?next]" by auto
    from fit src have "?next \<le> length src" by (simp add: list_all_iff)
    then have "set row \<subseteq> set src" unfolding row by auto
    with src show "\<exists>src\<in>set hsv_array. set row \<subseteq> set src" by blast
  qed
  show ?case
    using ok rc cells by (simp add: Let_def tc r)
qed

lemma plot_polar_spectrogram_total:
  assumes "has_shape hsv_array rows cols" and "512 \<le> cols"
  shows "\<exists>annuli. plot_polar_spectrogram hsv_array frame_size sample_rate = Inr annuli \<and>
           (\<forall>a\<in>set annuli. \<forall>row\<in>set (band_cells a). \<exists>src\<in>set hsv_array. set row \<subseteq> set src)"
proof -
  have a: "list_all (\<lambda>b. b + 1 < length band_radii) [0 ..< 7]"
    unfolding upt_7 band_radii_values by simp
  have s: "sum_list (map band_to_numbins [0 ..< 7]) = 512"
    unfolding upt_7 by (simp add: band_to_numbins_def)
  have b: "list_all (\<lambda>row. 0 + sum_list (map band_to_numbins [0 ..< 7]) \<le> length row) hsv_array"
    unfolding s using assms by (simp add: has_shape_def list_all_iff)
  from plot_loop_total [OF a b] show ?thesis
    by (simp only: plot_polar_spectrogram_def)
qed

theorem plot_polar_spectrogram_radii_witness:
  "\<exists>annuli. plot_polar_spectrogram [replicate 512 (Finite 0, Finite 1, Finite 1)] 1024 48000 = Inr annuli \<and>
     length annuli = 7 \<and>
     outer_radius (annuli ! 0) = 10 \<and> inner_radius (annuli ! 0) = 8.75 \<and>
     outer_radius (annuli ! 6) = 2.5 \<and> inner_radius (annuli ! 6) = 1.25"
proof -
  have "has_shape [replicate 512 (Finite 0, Finite 1, Finite 1)] 1 512"
    by (simp add: has_shape_def)
  from plot_polar_spectrogram_total [OF this, of 1024 48000]
  obtain annuli where
    ret: "plot_polar_spectrogram [replicate 512 (Finite 0, Finite 1, Finite 1)] 1024 48000 = Inr annuli"
    by auto
  from plot_polar_spectrogram_radii [OF ret]
  have len: "length annuli = 7"
    and rad: "\<forall>b<7. outer_radius (annuli ! b) = max_radius - real b * annulus_thickness \<and>
                inner_radius (annuli ! b) = max_radius - real (b + 1) * annulus_thickness \<and>
                inner_radius (annuli ! b) < outer_radius (annuli ! b)"
    by blast+
  from rad have "outer_radius (annuli ! 0) = max_radius - real 0 * annulus_thickness"
    and "inner_radius (annuli ! 0) = max_radius - real (0 + 1) * annulus_thickness"
    and "outer_radius (annuli ! 6) = max_radius - real 6 * annulus_thickness"
    and "inner_radius (annuli ! 6) = max_radius - real (6 + 1) * annulus_thickness"
    by simp_all
  then have "outer_radius (annuli ! 0) = 10" and "inner_radius (annuli ! 0) = 8.75"
    and "outer_radius (annuli ! 6) = 2.5" and "inner_radius (annuli ! 6) = 1.25"
    by (simp_all add: annulus_thickness_value max_radius_def)
  with ret len show ?thesis by blast
qed

subsection \<open>Digital silence\<close>

lemma dct_zero:
  assumes "\<forall>x\<in>set xs. x = 0"
  shows "\<forall>y\<in>set (dct xs). y = 0"
proof -
  have z: "xs ! n = 0" if "n < length xs" for n
    using assms that by simp
  have m: "map (\<lambda>n. xs ! n * cos (pi * real k * (2 * real n + 1) / (2 * real (length xs))))
            [0 ..< length xs] = map (\<lambda>n. 0) [0 ..< length xs]" for k
    by (rule map_cong) (simp_all add: z)
  have "sum_list (map (\<lambda>n. xs ! n * cos (pi * real k * (2 * real n + 1) / (2 * real (length xs))))
               [0 ..< length xs]) = 0" for k
    unfolding m by simp
  then show ?thesis
    by (simp add: dct_def Let_def)
qed

lemma windowed_zero:
  assumes "\<forall>x\<in>set xs. x = (0::real)"
  shows "\<forall>y\<in>set (map2 (*) xs w). y = 0"
  using assms by (auto dest: set_zip_leftD)

lemma apply_mdct_zero:
  assumes "0 < hop_size" and "0 < frame_size div 2" and "sample_rate \<noteq> 0"
    and "frame_size \<le> length audio" and "\<forall>x\<in>set audio. x = 0"
  shows "\<exists>M. apply_mdct audio frame_size hop_size sample_rate = Inr M \<and>
           has_shape M (1 + (length audio - frame_size) div hop_size) (frame_size div 2) \<and>
           (\<forall>x\<in>set (concat M). x = 0)"
proof -
  let ?k = "1 + (length audio - frame_size) div hop_size"
  let ?frame = "\<lambda>n. take frame_size (drop (n * hop_size) audio)"
  let ?row = "\<lambda>n. take (frame_size div 2) (dct (map2 (*) (?frame n) (sine_window frame_size)))"
  have ret: "apply_mdct audio frame_size hop_size sample_rate = Inr (map ?row [0 ..< ?k])"
    by (rule apply_mdct_frames [OF assms(1-4)])
  have len: "length (?row n) = frame_size div 2" if "n < ?k" for n
  proof -
    have "n * hop_size + frame_size \<le> length audio"
      by (rule frame_fits [OF assms(1,4) that])
    then show ?thesis
      by (simp add: length_dct length_sine_window)
  qed
  have shape: "has_shape (map ?row [0 ..< ?k]) ?k (frame_size div 2)"
    unfolding has_shape_def list_all_length using len by (simp del: upt_Suc)
  have zero: "\<forall>y\<in>set (?row n). y = 0" for n
  proof -
    have "\<forall>x\<in>set (?frame n). x = 0"
      using assms(5) by (meson in_set_dropD in_set_takeD)
    then have "\<forall>y\<in>set (map2 (*) (?frame n) (sine_window frame_size)). y = 0"
      by (rule windowed_zero)
    then have "\<forall>y\<in>set (dct (map2 (*) (?frame n) (sine_window frame_size))). y = 0"
      by (rule dct_zero)
    then show ?thesis by (meson in_set_takeD)
  qed
  have "\<forall>x\<in>set (concat (map ?row [0 ..< ?k])). x = 0"
    using zero by (auto simp del: upt_Suc)
  with ret shape show ?thesis by blast
qed

lemma mdct_to_hsv_zero:
  assumes "has_shape M rows (frame_size div 2)"
    and "0 < rows" and "0 < frame_size div 2" and "0 < sample_rate"
    and "\<forall>x\<in>set (concat M). x = 0"
  shows "\<exists>hsv. mdct_to_hsv M frame_size sample_rate s = Inr hsv \<and>
           has_shape hsv rows (frame_size div 2) \<and>
           (\<forall>r<rows. \<forall>c<frame_size div 2.
              saturation_of (hsv ! r ! c) = NaN \<and> brightness_of (hsv ! r ! c) = NaN)"
proof -
  have ne: "concat M \<noteq> []" by (rule has_shape_concat [OF assms(1-3)])
  then have s0: "set (concat M) = {0}" using assms(5) by (cases "concat M") auto
  have a: "set (map abs (concat M)) = {0}"
    unfolding set_map s0 by simp
  have l: "set (map (\<lambda>x. log 10 (np_add_one \<bar>x\<bar>)) (concat M)) = {0}"
    unfolding set_map s0 by (simp add: np_add_one_def)
  from mdct_to_hsv_cells [OF assms(1-4), of s, unfolded a l]
  obtain hsv hue_row where ret: "mdct_to_hsv M frame_size sample_rate s = Inr hsv"
    and shp: "has_shape hsv rows (frame_size div 2)"
    and cell: "\<And>r c. r < rows \<Longrightarrow> c < frame_size div 2 \<Longrightarrow>
         hsv ! r ! c =
           (Finite (hue_row ! c),
            np_add 0.8 (np_multiply (np_true_divide 0.2 (Max {0})) (M ! r ! c)),
            np_true_divide (log 10 (np_add_one \<bar>M ! r ! c\<bar>) - Min {0}) (Max {0} - Min {0}))"
    by blast
  have nan: "saturation_of (hsv ! r ! c) = NaN \<and> brightness_of (hsv ! r ! c) = NaN"
    if rc: "r < rows" "c < frame_size div 2" for r c
  proof -
    have "M ! r ! c \<in> set (concat M)"
      by (rule has_shape_cell_in_concat [OF assms(1) rc])
    with assms(5) have "M ! r ! c = 0" by blast
    with cell [OF rc] show ?thesis
      by (simp add: saturation_of_def brightness_of_def np_true_divide_def np_add_one_def)
  qed
  from ret shp nan show ?thesis by blast
qed

lemma has_shape_cells:
  assumes "has_shape a rows cols" and "\<forall>r<rows. \<forall>c<cols. P (a ! r ! c)"
  shows "\<forall>row\<in>set a. \<forall>cell\<in>set row. P cell"
proof (intro ballI)
  fix row cell assume "row \<in> set a" and "cell \<in> set row"
  then obtain r c where "r < length a" "row = a ! r" "c < length row" "cell = row ! c"
    by (metis in_set_conv_nth)
  with assms show "P cell"
    by (auto simp: has_shape_def list_all_length)
qed

text \<open>
  Claim C2, which the code does not meet. The claim asks that an all-zero waveform ends
  in a degenerate-input error and that no image is drawn. The code has no such check,
  although its comments (\<^verbatim>\<open>#for handling of zero\<close>, \<^verbatim>\<open>brightness will be between 0 and 1\<close>)
  show that it means to handle zero values. For an all-zero waveform and a positive
  sample rate: with fewer than 1024 samples the pipeline ends in the \<open>ValueError\<close> of a
  waveform shorter than a frame; with 1024 samples or more the transform matrix is all
  zero, the encoder divides by zero twice and returns an array whose saturation and
  brightness are \<^verbatim>\<open>nan\<close> in every cell, and the renderer is given that array.
\<close>

theorem main_silence:
  assumes "\<forall>x\<in>set audio. x = 0" and "0 < sample_rate"
  shows "(length audio < 1024 \<longrightarrow> main audio sample_rate = Inl ValueError) \<and>
         (1024 \<le> length audio \<longrightarrow>
            (\<exists>mdct_array hsv_array image.
               apply_mdct audio 1024 512 sample_rate = Inr mdct_array \<and>
               (\<forall>x\<in>set (concat mdct_array). x = 0) \<and>
               mdct_to_hsv mdct_array 1024 sample_rate 1 = Inr hsv_array \<and>
               (\<forall>row\<in>set hsv_array. \<forall>cell\<in>set row.
                  saturation_of cell = NaN \<and> brightness_of cell = NaN) \<and>
               main audio sample_rate = Inr image \<and>
               (\<forall>a\<in>set image. \<forall>row\<in>set (band_cells a). \<forall>cell\<in>set row.
                  saturation_of cell = NaN \<and> brightness_of cell = NaN)))"
proof (intro conjI impI)
  assume "length audio < 1024"
  with assms(2) show "main audio sample_rate = Inl ValueError"
    by (intro main_short) simp_all
next
  assume long: "1024 \<le> length audio"
  define k where "k = 1 + (length audio - 1024) div 512"
  have kpos: "0 < k" by (simp add: k_def)
  have sr: "sample_rate \<noteq> 0" using assms(2) by simp
  have half: "(0::nat) < 1024 div 2" and hop: "(0::nat) < 512" by simp_all
  from apply_mdct_zero [OF hop half sr long assms(1), folded k_def]
  obtain M where fr: "apply_mdct audio 1024 512 sample_rate = Inr M"
    and shM: "has_shape M k (1024 div 2)"
    and zero: "\<forall>x\<in>set (concat M). x = 0"
    by blast
  have ne: "concat M \<noteq> []" by (rule has_shape_concat [OF shM kpos half])
  from mdct_to_hsv_zero [OF shM kpos half assms(2) zero, of 1]
  obtain hsv where enc: "mdct_to_hsv M 1024 sample_rate 1 = Inr hsv"
    and shH: "has_shape hsv k (1024 div 2)"
    and nan: "\<forall>r<k. \<forall>c<1024 div 2.
                saturation_of (hsv ! r ! c) = NaN \<and> brightness_of (hsv ! r ! c) = NaN"
    by blast
  have cells: "\<forall>row\<in>set hsv. \<forall>cell\<in>set row. saturation_of cell = NaN \<and> brightness_of cell = NaN"
    by (rule has_shape_cells [OF shH nan])
  have wide: "(512::nat) \<le> 1024 div 2" by simp
  from plot_polar_spectrogram_total [OF shH wide, of 1024 sample_rate]
  obtain image where plot: "plot_polar_spectrogram hsv 1024 sample_rate = Inr image"
    and src: "\<forall>a\<in>set image. \<forall>row\<in>set (band_cells a). \<exists>src\<in>set hsv. set row \<subseteq> set src"
    by blast
  have drawn: "\<forall>a\<in>set image. \<forall>row\<in>set (band_cells a). \<forall>cell\<in>set row.
                 saturation_of cell = NaN \<and> brightness_of cell = NaN"
  proof (intro ballI)
    fix a row cell
    assume "a \<in> set image" and "row \<in> set (band_cells a)" and c: "cell \<in> set row"
    with src obtain s where s: "s \<in> set hsv" "set row \<subseteq> set s" by blast
    from c s(2) have "cell \<in> set s" by (rule subsetD [rotated])
    with cells s(1) show "saturation_of cell = NaN \<and> brightness_of cell = NaN" by blast
  qed
  have mn: "np_min M = Inr (Min (set (concat M)))" by (rule np_min_Min [OF ne])
  have mx: "np_max M = Inr (Max (set (concat M)))" by (rule np_max_Max [OF ne])
  have d: "(1024::nat) div 2 = 512" by simp
  have run: "main audio sample_rate = Inr image"
    unfolding main_def Let_def d fr sum.case mn mx enc plot ..
  from fr zero enc cells run drawn
  show "\<exists>mdct_array hsv_array image.
               apply_mdct audio 1024 512 sample_rate = Inr mdct_array \<and>
               (\<forall>x\<in>set (concat mdct_array). x = 0) \<and>
               mdct_to_hsv mdct_array 1024 sample_rate 1 = Inr hsv_array \<and>
               (\<forall>row\<in>set hsv_array. \<forall>cell\<in>set row.
                  saturation_of cell = NaN \<and> brightness_of cell = NaN) \<and>
               main audio sample_rate = Inr image \<and>
               (\<forall>a\<in>set image. \<forall>row\<in>set (band_cells a). \<forall>cell\<in>set row.
                  saturation_of cell = NaN \<and> brightness_of cell = NaN)"
    by blast
qed

theorem main_silence_witness:
  "(0::int) < 48000 \<and> 1024 \<le> length (replicate 2000 (0::real)) \<and>
   (\<exists>image. main (replicate 2000 0) 48000 = Inr image) \<and>
   main (replicate 700 0) 48000 = Inl ValueError"
proof -
  have z: "\<forall>x\<in>set (replicate 2000 (0::real)). x = 0"
    by simp
  have z': "\<forall>x\<in>set (replicate 700 (0::real)). x = 0"
    by simp
  have sr: "(0::int) < 48000"
    by simp
  have n: "1024 \<le> length (replicate 2000 (0::real))"
    by simp
  have n': "length (replicate 700 (0::real)) < 1024"
    by simp
  note long = main_silence [OF z sr, THEN conjunct2, THEN mp, OF n]
  note short = main_silence [OF z' sr, THEN conjunct1, THEN mp, OF n']
  from long obtain image where a: "main (replicate 2000 0) 48000 = Inr image"
    by (elim exE conjE)
  then have a': "\<exists>image. main (replicate 2000 0) 48000 = Inr image" ..
  show ?thesis
    by (intro conjI sr n a' short)
qed

end
